theory Spec2Isabelle
  imports Complex_Main "HOL-Library.Word"
begin

unbundle bit_operations_syntax

section \<open>Python values and errors\<close>

text \<open>
  A Python value that may be \<^verbatim>\<open>None\<close> is an \<open>option\<close>: \<open>None\<close> is Python's
  \<^verbatim>\<open>None\<close>. Exceptions are values of \<open>py_error\<close>. Clock readings
  (\<^verbatim>\<open>time.time()\<close>, \<^verbatim>\<open>time.monotonic()\<close>) are real numbers handed to each
  operation as the argument \<open>now\<close>; nothing below assumes that they increase.
\<close>

datatype py_error = KeyError | ValueError | TypeError | JSONDecodeError | ValidationError

section \<open>The cache store\<close>

subsection \<open>The TTLCache class used by the repository\<close>

text \<open>
  Modelled from the spec: the class \<^verbatim>\<open>TTLCache\<close> that
  \<^verbatim>\<open>memory_cache_repository.py\<close> imports from \<^verbatim>\<open>cachetools\<close> is not among the
  sources. The spec asks for ``a fixed-capacity bounded cache with TTL-based and
  size-based eviction, whichever triggers first'', an entry being never returned after
  its \<^verbatim>\<open>expires_at\<close>. The model follows the methods of the library class
  (release 5) one by one, every item having size 1:
  \<^item> \<open>chain\<close> is the linked list of the class, in the order of the last
    \<^verbatim>\<open>__setitem__\<close> of each key, every link with its value and its expiry time;
  \<^item> \<open>lru\<close> is the key order of the ordered dictionary \<^verbatim>\<open>__links\<close>, which
    \<^verbatim>\<open>__getitem__\<close> and \<^verbatim>\<open>__setitem__\<close> move a key to the end of and
    \<^verbatim>\<open>popitem\<close> evicts the first key of.
\<close>

record ('k, 'v) ttl_cache =
  maxsize :: int
  ttl :: real
  chain :: "('k \<times> 'v \<times> real) list"
  lru :: "'k list"

definition TTLCache :: "int \<Rightarrow> real \<Rightarrow> ('k, 'v) ttl_cache" where
  "TTLCache m t = \<lparr>maxsize = m, ttl = t, chain = [], lru = []\<rparr>"

text \<open>\<^verbatim>\<open>expire(time)\<close>: walks the linked list from its head and removes links
  while they are expired (\<^verbatim>\<open>not (time < curr.expires)\<close>).\<close>

definition expire :: "real \<Rightarrow> ('k, 'v) ttl_cache \<Rightarrow> ('k, 'v) ttl_cache" where
  "expire now c =
     (let dead = map fst (takeWhile (\<lambda>(k, v, e). \<not> now < e) (chain c))
      in c\<lparr>chain := dropWhile (\<lambda>(k, v, e). \<not> now < e) (chain c),
            lru := filter (\<lambda>k. k \<notin> set dead) (lru c)\<rparr>)"

text \<open>\<^verbatim>\<open>__contains__\<close>: the key has a link and the link has not expired.\<close>

definition contains :: "real \<Rightarrow> ('k, 'v) ttl_cache \<Rightarrow> 'k \<Rightarrow> bool" where
  "contains now c k =
     (case map_of (chain c) k of None \<Rightarrow> False | Some (v, e) \<Rightarrow> now < e)"

text \<open>\<^verbatim>\<open>__getitem__\<close>: \<^verbatim>\<open>__getlink\<close> moves the key to the end of \<open>lru\<close>; an
  expired or missing key raises \<^verbatim>\<open>KeyError\<close> (\<^verbatim>\<open>__missing__\<close>).\<close>

definition getitem :: "real \<Rightarrow> ('k, 'v) ttl_cache \<Rightarrow> 'k \<Rightarrow> (py_error + 'v) \<times> ('k, 'v) ttl_cache" where
  "getitem now c k =
     (case map_of (chain c) k of
        None \<Rightarrow> (Inl KeyError, c)
      | Some (v, e) \<Rightarrow>
          (let c' = c\<lparr>lru := filter (\<lambda>k'. k' \<noteq> k) (lru c) @ [k]\<rparr>
           in if \<not> now < e then (Inl KeyError, c') else (Inr v, c')))"

text \<open>\<^verbatim>\<open>__delitem__\<close>: removes the item and its link, then raises
  \<^verbatim>\<open>KeyError\<close> if the link had expired.\<close>

definition delitem :: "real \<Rightarrow> ('k, 'v) ttl_cache \<Rightarrow> 'k \<Rightarrow> py_error option \<times> ('k, 'v) ttl_cache" where
  "delitem now c k =
     (case map_of (chain c) k of
        None \<Rightarrow> (Some KeyError, c)
      | Some (v, e) \<Rightarrow>
          (let c' = c\<lparr>chain := filter (\<lambda>(k', x). k' \<noteq> k) (chain c),
                      lru := filter (\<lambda>k'. k' \<noteq> k) (lru c)\<rparr>
           in (if \<not> now < e then Some KeyError else None, c')))"

text \<open>\<^verbatim>\<open>get(key)\<close> of the base class, run under one clock reading:
  \<^verbatim>\<open>self[key] if key in self else None\<close>. The stored value may itself be
  \<^verbatim>\<open>None\<close>.\<close>

definition cache_get :: "real \<Rightarrow> ('k, 'v option) ttl_cache \<Rightarrow> 'k \<Rightarrow> 'v option \<times> ('k, 'v option) ttl_cache" where
  "cache_get now c k =
     (if contains now c k
      then (case getitem now c k of (Inr v, c') \<Rightarrow> (v, c') | (Inl e, c') \<Rightarrow> (None, c'))
      else (None, c))"

text \<open>\<^verbatim>\<open>popitem\<close>: expires, then pops the first key of \<open>lru\<close> with the base
  class's \<^verbatim>\<open>pop\<close> (\<^verbatim>\<open>key in self\<close>, \<^verbatim>\<open>self[key]\<close>, \<^verbatim>\<open>del self[key]\<close>);
  \<^verbatim>\<open>KeyError\<close> when the cache is empty or the key is not contained.\<close>

definition popitem :: "real \<Rightarrow> ('k, 'v) ttl_cache \<Rightarrow> py_error option \<times> ('k, 'v) ttl_cache" where
  "popitem now c =
     (let c1 = expire now c in
      case lru c1 of
        [] \<Rightarrow> (Some KeyError, c1)
      | k # ks \<Rightarrow>
          if contains now c1 k
          then (case getitem now c1 k of
                  (Inl e, c2) \<Rightarrow> (Some e, c2)
                | (Inr v, c2) \<Rightarrow> delitem now c2 k)
          else (Some KeyError, c1))"

lemma expire_length: "length (chain (expire now c)) \<le> length (chain c)"
  by (simp add: expire_def Let_def length_dropWhile_le)

lemma filter_key_shorter:
  "map_of xs k = Some y \<Longrightarrow> length (filter (\<lambda>(k', x). k' \<noteq> k) xs) < length xs"
proof (induction xs)
  case Nil
  then show ?case by simp
next
  case (Cons p xs)
  obtain k' x where p: "p = (k', x)" by (cases p)
  show ?case
  proof (cases "k' = k")
    case True
    with p show ?thesis by (simp add: le_imp_less_Suc)
  next
    case False
    with Cons p show ?thesis by simp
  qed
qed

lemma popitem_shrinks:
  assumes "popitem now c = (None, c')"
  shows "length (chain c') < length (chain c)"
proof -
  let ?c1 = "expire now c"
  from assms obtain k ks where l: "lru ?c1 = k # ks"
    by (cases "lru ?c1") (auto simp: popitem_def Let_def)
  from assms l have con: "contains now ?c1 k"
    by (auto simp: popitem_def Let_def split: if_splits)
  then obtain v e where m: "map_of (chain ?c1) k = Some (v, e)" and e: "now < e"
    by (auto simp: contains_def split: option.splits)
  from assms l con m e have "chain c' = filter (\<lambda>(k', x). k' \<noteq> k) (chain ?c1)"
    by (auto simp: popitem_def getitem_def delitem_def Let_def)
  with filter_key_shorter [OF m] have "length (chain c') < length (chain ?c1)" by simp
  with expire_length [of now c] show ?thesis by simp
qed

text \<open>The eviction loop of the base class's \<^verbatim>\<open>__setitem__\<close>:
  \<^verbatim>\<open>while self.__currsize + size > maxsize: self.popitem()\<close>, the size of a
  value being 1 and \<^verbatim>\<open>__currsize\<close> the number of items. An exception of
  \<^verbatim>\<open>popitem\<close> leaves the loop.\<close>

function evict :: "real \<Rightarrow> ('k, 'v) ttl_cache \<Rightarrow> py_error option \<times> ('k, 'v) ttl_cache" where
  "evict now c =
     (if int (length (chain c)) + 1 > maxsize c
      then (case popitem now c of
              (Some e, c') \<Rightarrow> (Some e, c')
            | (None, c') \<Rightarrow> evict now c')
      else (None, c))"
  by pat_completeness auto
termination
  by (relation "measure (\<lambda>(now, c). length (chain c))") (auto dest: popitem_shrinks [OF sym])

declare evict.simps [simp del]

text \<open>\<^verbatim>\<open>Cache.__setitem__\<close> followed by the relinking of
  \<^verbatim>\<open>TTLCache.__setitem__\<close>: a value larger than \<open>maxsize\<close> raises
  \<^verbatim>\<open>ValueError\<close>; a new key evicts until there is room; the key's link moves to the
  end of both orders with the expiry time \<open>now + ttl\<close>.\<close>

definition store :: "real \<Rightarrow> ('k, 'v) ttl_cache \<Rightarrow> 'k \<Rightarrow> 'v \<Rightarrow> ('k, 'v) ttl_cache" where
  "store now c k v =
     c\<lparr>chain := filter (\<lambda>(k', x). k' \<noteq> k) (chain c) @ [(k, v, now + ttl c)],
       lru := filter (\<lambda>k'. k' \<noteq> k) (lru c) @ [k]\<rparr>"

definition setitem :: "real \<Rightarrow> ('k, 'v) ttl_cache \<Rightarrow> 'k \<Rightarrow> 'v \<Rightarrow> py_error option \<times> ('k, 'v) ttl_cache" where
  "setitem now c k v =
     (let c1 = expire now c in
      if 1 > maxsize c1 then (Some ValueError, c1)
      else if map_of (chain c1) k = None
      then (case evict now c1 of
              (Some e, c2) \<Rightarrow> (Some e, c2)
            | (None, c2) \<Rightarrow> (None, store now c2 k v))
      else (None, store now c1 k v))"

subsection \<open>MemoryCacheRepository\<close>

text \<open>
  The repository keeps one \<^verbatim>\<open>TTLCache\<close> per namespace in the dictionary
  \<^verbatim>\<open>_caches\<close>, and the counters of \<^verbatim>\<open>_stats\<close>. Keys and namespaces are
  strings; a cached value is any Python value, \<^verbatim>\<open>None\<close> included.
\<close>

record 'v memory_cache_repository =
  caches :: "string \<rightharpoonup> (string, 'v option) ttl_cache"
  default_ttl :: int
  default_maxsize :: int
  hits :: nat
  misses :: nat
  errors :: nat
  last_reset :: real

text \<open>\<^verbatim>\<open>__init__(default_ttl=3600, maxsize=1000)\<close>, at the clock reading
  \<open>now\<close>.\<close>

definition MemoryCacheRepository :: "int \<Rightarrow> int \<Rightarrow> real \<Rightarrow> 'v memory_cache_repository" where
  "MemoryCacheRepository dttl msize now =
     \<lparr>caches = Map.empty, default_ttl = dttl, default_maxsize = msize,
      hits = 0, misses = 0, errors = 0, last_reset = now\<rparr>"

text \<open>\<^verbatim>\<open>_get_cache\<close>: the namespace's cache, created with the defaults on first
  use.\<close>

definition repo_get_cache ::
  "'v memory_cache_repository \<Rightarrow> string \<Rightarrow> (string, 'v option) ttl_cache \<times> 'v memory_cache_repository" where
  "repo_get_cache r ns =
     (case caches r ns of
        None \<Rightarrow>
          (let c = TTLCache (default_maxsize r) (real_of_int (default_ttl r))
           in (c, r\<lparr>caches := (caches r)(ns \<mapsto> c)\<rparr>))
      | Some c \<Rightarrow> (c, r))"

text \<open>\<^verbatim>\<open>get(key, namespace)\<close>: the value or \<^verbatim>\<open>None\<close>, counted as a hit or a
  miss. The lookup mutates the namespace's cache in place (the order \<open>lru\<close>). The
  \<^verbatim>\<open>except\<close> branch has no counterpart: under one clock reading
  \<^verbatim>\<open>cache.get\<close> raises nothing.\<close>

definition repo_get ::
  "real \<Rightarrow> 'v memory_cache_repository \<Rightarrow> string \<Rightarrow> string \<Rightarrow> 'v option \<times> 'v memory_cache_repository" where
  "repo_get now r key ns =
     (case repo_get_cache r ns of (c, r1) \<Rightarrow>
        (case cache_get now c key of (val, c') \<Rightarrow>
           (let r2 = r1\<lparr>caches := (caches r1)(ns \<mapsto> c')\<rparr>
            in if val = None then (val, r2\<lparr>misses := misses r2 + 1\<rparr>)
               else (val, r2\<lparr>hits := hits r2 + 1\<rparr>))))"

text \<open>\<^verbatim>\<open>set(key, value, ttl, namespace)\<close>. With a positive \<open>ttl\<close> the method
  builds a new cache of the same \<open>maxsize\<close> and that \<open>ttl\<close>, stores the one item in
  it and makes it the namespace's cache; otherwise it stores into the namespace's own
  cache. An exception of the cache is counted and answered \<^verbatim>\<open>False\<close>; what the
  cache had already done to itself stays done.\<close>

definition repo_set ::
  "real \<Rightarrow> 'v memory_cache_repository \<Rightarrow> string \<Rightarrow> 'v option \<Rightarrow> int option \<Rightarrow> string
     \<Rightarrow> bool \<times> 'v memory_cache_repository" where
  "repo_set now r key val t ns =
     (case repo_get_cache r ns of (c, r1) \<Rightarrow>
        (let own = (case setitem now c key val of
                      (None, c') \<Rightarrow> (True, r1\<lparr>caches := (caches r1)(ns \<mapsto> c')\<rparr>)
                    | (Some e, c') \<Rightarrow>
                        (False, r1\<lparr>caches := (caches r1)(ns \<mapsto> c'), errors := errors r1 + 1\<rparr>))
         in case t of
              None \<Rightarrow> own
            | Some n \<Rightarrow>
                if n \<noteq> 0 \<and> n > 0
                then (case setitem now (TTLCache (maxsize c) (real_of_int n)) key val of
                        (None, temp) \<Rightarrow> (True, r1\<lparr>caches := (caches r1)(ns \<mapsto> temp)\<rparr>)
                      | (Some e, temp) \<Rightarrow> (False, r1\<lparr>errors := errors r1 + 1\<rparr>))
                else own))"

text \<open>A use of the repository: a sequence of calls, each with the clock reading it
  runs at.\<close>

datatype 'v cache_call =
    Get real string string
  | Set real string "'v option" "int option" string

fun call :: "'v memory_cache_repository \<Rightarrow> 'v cache_call \<Rightarrow> 'v memory_cache_repository" where
  "call r (Get now key ns) = snd (repo_get now r key ns)"
| "call r (Set now key val t ns) = snd (repo_set now r key val t ns)"

definition calls :: "'v memory_cache_repository \<Rightarrow> 'v cache_call list \<Rightarrow> 'v memory_cache_repository" where
  "calls r cs = foldl call r cs"

text \<open>The items of a namespace that a lookup at \<open>now\<close> can still return.\<close>

definition live :: "real \<Rightarrow> 'v memory_cache_repository \<Rightarrow> string \<Rightarrow> (string \<times> 'v option \<times> real) list" where
  "live now r ns =
     (case caches r ns of
        None \<Rightarrow> []
      | Some c \<Rightarrow> filter (\<lambda>(k, v, e). now < e) (chain c))"

subsection \<open>What every call keeps: the capacity of each namespace\<close>

lemma expire_maxsize: "maxsize (expire now c) = maxsize c"
  by (simp add: expire_def Let_def)

lemma getitem_keeps:
  "maxsize (snd (getitem now c k)) = maxsize c \<and> chain (snd (getitem now c k)) = chain c"
  by (simp add: getitem_def Let_def split: option.splits prod.splits)

lemma delitem_keeps:
  "maxsize (snd (delitem now c k)) = maxsize c \<and>
   length (chain (snd (delitem now c k))) \<le> length (chain c)"
  by (simp add: delitem_def Let_def split: option.splits prod.splits)

lemma popitem_keeps:
  "maxsize (snd (popitem now c)) = maxsize c \<and>
   length (chain (snd (popitem now c))) \<le> length (chain c)"
proof -
  let ?c1 = "expire now c"
  have a: "maxsize ?c1 = maxsize c" by (rule expire_maxsize)
  have b: "length (chain ?c1) \<le> length (chain c)" by (rule expire_length)
  show ?thesis
  proof (cases "lru ?c1")
    case Nil
    with a b show ?thesis by (simp add: popitem_def Let_def)
  next
    case (Cons k ks)
    show ?thesis
    proof (cases "contains now ?c1 k")
      case False
      with Cons a b show ?thesis by (simp add: popitem_def Let_def)
    next
      case True
      obtain x c2 where g: "getitem now ?c1 k = (x, c2)" by (cases "getitem now ?c1 k")
      from getitem_keeps [of now ?c1 k] g
      have c2: "maxsize c2 = maxsize ?c1" "chain c2 = chain ?c1" by simp_all
      show ?thesis
      proof (cases x)
        case (Inl e)
        with Cons True g c2 a b show ?thesis by (simp add: popitem_def Let_def)
      next
        case (Inr v)
        from delitem_keeps [of now c2 k] c2 a b
        have "maxsize (snd (delitem now c2 k)) = maxsize c \<and>
              length (chain (snd (delitem now c2 k))) \<le> length (chain c)" by simp
        with Inr Cons True g show ?thesis by (simp add: popitem_def Let_def)
      qed
    qed
  qed
qed

lemma evict_keeps:
  "evict now c = (err, c') \<Longrightarrow>
     maxsize c' = maxsize c \<and> length (chain c') \<le> length (chain c) \<and>
     (err = None \<longrightarrow> int (length (chain c')) + 1 \<le> maxsize c)"
proof (induction now c arbitrary: err c' rule: evict.induct)
  case (1 now c)
  show ?case
  proof (cases "int (length (chain c)) + 1 > maxsize c")
    case False
    with "1.prems" show ?thesis by (simp add: evict.simps)
  next
    case True
    obtain e c1 where p: "popitem now c = (e, c1)" by (cases "popitem now c")
    from popitem_keeps [of now c] p
    have k: "maxsize c1 = maxsize c" "length (chain c1) \<le> length (chain c)" by simp_all
    show ?thesis
    proof (cases e)
      case (Some x)
      with True p "1.prems" k show ?thesis by (auto simp: evict.simps)
    next
      case None
      with True p "1.prems" have "evict now c1 = (err, c')" by (simp add: evict.simps)
      from "1.IH" [OF True p [symmetric] None this] k show ?thesis by simp
    qed
  qed
qed

lemma store_length:
  "length (chain (store now c k v)) \<le> Suc (length (chain c)) \<and>
   maxsize (store now c k v) = maxsize c"
  by (simp add: store_def)

lemma store_length_old:
  "map_of (chain c) k = Some y \<Longrightarrow> length (chain (store now c k v)) \<le> length (chain c)"
  using filter_key_shorter [of "chain c" k y] by (simp add: store_def)

lemma setitem_keeps:
  "maxsize (snd (setitem now c k v)) = maxsize c \<and>
   (length (chain c) \<le> nat (maxsize c) \<longrightarrow>
      length (chain (snd (setitem now c k v))) \<le> nat (maxsize c))"
proof -
  let ?c1 = "expire now c"
  have a: "maxsize ?c1 = maxsize c" by (rule expire_maxsize)
  have b: "length (chain ?c1) \<le> length (chain c)" by (rule expire_length)
  show ?thesis
  proof (cases "1 > maxsize ?c1")
    case True
    with a b show ?thesis by (auto simp: setitem_def Let_def)
  next
    case big: False
    show ?thesis
    proof (cases "map_of (chain ?c1) k")
      case (Some y)
      from store_length_old [OF Some, of now v] store_length [of now ?c1 k v] a b big Some
      show ?thesis by (simp add: setitem_def Let_def)
    next
      case None
      obtain e c2 where ev: "evict now ?c1 = (e, c2)" by (cases "evict now ?c1")
      note k = evict_keeps [OF ev]
      show ?thesis
      proof (cases e)
        case (Some x)
        with None big ev k a b show ?thesis by (simp add: setitem_def Let_def)
      next
        case n: None
        with k have "int (length (chain c2)) + 1 \<le> maxsize c" using a by simp
        with store_length [of now c2 k v] k a
        have "maxsize (store now c2 k v) = maxsize c \<and>
              length (chain (store now c2 k v)) \<le> nat (maxsize c)" by auto
        with n None big ev show ?thesis by (simp add: setitem_def Let_def)
      qed
    qed
  qed
qed

lemma cache_get_keeps:
  "maxsize (snd (cache_get now c k)) = maxsize c \<and> chain (snd (cache_get now c k)) = chain c"
  using getitem_keeps [of now c k]
  by (auto simp: cache_get_def split: prod.splits sum.splits)


definition bounded :: "'v memory_cache_repository \<Rightarrow> bool" where
  "bounded r =
     (\<forall>ns c. caches r ns = Some c \<longrightarrow>
        maxsize c = default_maxsize r \<and> length (chain c) \<le> nat (default_maxsize r))"

lemma bounded_init: "bounded (MemoryCacheRepository d m t)"
  by (simp add: bounded_def MemoryCacheRepository_def)

lemma repo_get_cache_bounded:
  assumes "bounded r" and "repo_get_cache r ns = (c, r1)"
  shows "bounded r1 \<and> default_maxsize r1 = default_maxsize r \<and>
         maxsize c = default_maxsize r \<and> length (chain c) \<le> nat (default_maxsize r)"
proof (cases "caches r ns")
  case None
  with assms(2) have c: "c = TTLCache (default_maxsize r) (real_of_int (default_ttl r))"
    and r1: "r1 = r\<lparr>caches := (caches r)(ns \<mapsto> c)\<rparr>"
    by (auto simp: repo_get_cache_def Let_def)
  from c have "maxsize c = default_maxsize r" "chain c = []" by (simp_all add: TTLCache_def)
  with assms(1) r1 show ?thesis by (auto simp: bounded_def)
next
  case (Some c0)
  with assms(2) have "c = c0" "r1 = r" by (auto simp: repo_get_cache_def)
  with Some assms(1) show ?thesis by (auto simp: bounded_def)
qed

lemma bounded_upd:
  assumes "bounded r" and "maxsize c = default_maxsize r"
    and "length (chain c) \<le> nat (default_maxsize r)"
  shows "bounded (r\<lparr>caches := (caches r)(ns \<mapsto> c)\<rparr>)"
  using assms by (auto simp: bounded_def)

lemma bounded_stats:
  "bounded r \<Longrightarrow> bounded (r\<lparr>misses := m\<rparr>)"
  "bounded r \<Longrightarrow> bounded (r\<lparr>hits := h\<rparr>)"
  "bounded r \<Longrightarrow> bounded (r\<lparr>errors := e\<rparr>)"
  by (auto simp: bounded_def)

lemma repo_get_bounded:
  assumes "bounded r"
  shows "bounded (snd (repo_get now r key ns)) \<and>
         default_maxsize (snd (repo_get now r key ns)) = default_maxsize r"
proof -
  obtain c r1 where g: "repo_get_cache r ns = (c, r1)" by (cases "repo_get_cache r ns")
  note f = repo_get_cache_bounded [OF assms g]
  obtain val c' where cg: "cache_get now c key = (val, c')" by (cases "cache_get now c key")
  from cache_get_keeps [of now c key] cg
  have k: "maxsize c' = maxsize c" "chain c' = chain c" by simp_all
  from f k have "bounded (r1\<lparr>caches := (caches r1)(ns \<mapsto> c')\<rparr>)"
    by (intro bounded_upd) simp_all
  from bounded_stats(1,2) [OF this] g cg f show ?thesis
    by (simp add: repo_get_def Let_def)
qed

lemma repo_set_bounded:
  assumes "bounded r"
  shows "bounded (snd (repo_set now r key val t ns)) \<and>
         default_maxsize (snd (repo_set now r key val t ns)) = default_maxsize r"
proof -
  obtain c r1 where g: "repo_get_cache r ns = (c, r1)" by (cases "repo_get_cache r ns")
  note f = repo_get_cache_bounded [OF assms g]
  have upd: "bounded (r1\<lparr>caches := (caches r1)(ns \<mapsto> c')\<rparr>)"
    if "maxsize c' = maxsize c" "length (chain c') \<le> nat (maxsize c)" for c'
    using f that by (intro bounded_upd) simp_all
  obtain e1 c1 where s1: "setitem now c key val = (e1, c1)" by (cases "setitem now c key val")
  from setitem_keeps [of now c key val] s1 f
  have "maxsize c1 = maxsize c" "length (chain c1) \<le> nat (maxsize c)" by simp_all
  note u1 = upd [OF this]
  have own: "bounded (snd (case setitem now c key val of
                      (None, c') \<Rightarrow> (True, r1\<lparr>caches := (caches r1)(ns \<mapsto> c')\<rparr>)
                    | (Some e, c') \<Rightarrow>
                        (False, r1\<lparr>caches := (caches r1)(ns \<mapsto> c'), errors := errors r1 + 1\<rparr>)))
             \<and> default_maxsize (snd (case setitem now c key val of
                      (None, c') \<Rightarrow> (True, r1\<lparr>caches := (caches r1)(ns \<mapsto> c')\<rparr>)
                    | (Some e, c') \<Rightarrow>
                        (False, r1\<lparr>caches := (caches r1)(ns \<mapsto> c'), errors := errors r1 + 1\<rparr>)))
                 = default_maxsize r"
    using s1 u1 bounded_stats(3) [OF u1] f by (cases e1) simp_all
  have tmp: "bounded (snd (case setitem now (TTLCache (maxsize c) (real_of_int n)) key val of
                        (None, temp) \<Rightarrow> (True, r1\<lparr>caches := (caches r1)(ns \<mapsto> temp)\<rparr>)
                      | (Some e, temp) \<Rightarrow> (False, r1\<lparr>errors := errors r1 + 1\<rparr>)))
             \<and> default_maxsize (snd (case setitem now (TTLCache (maxsize c) (real_of_int n)) key val of
                        (None, temp) \<Rightarrow> (True, r1\<lparr>caches := (caches r1)(ns \<mapsto> temp)\<rparr>)
                      | (Some e, temp) \<Rightarrow> (False, r1\<lparr>errors := errors r1 + 1\<rparr>)))
                 = default_maxsize r" for n
  proof -
    let ?t = "TTLCache (maxsize c) (real_of_int n) :: (string, 'a option) ttl_cache"
    obtain e2 c2 where s2: "setitem now ?t key val = (e2, c2)" by (cases "setitem now ?t key val")
    from setitem_keeps [of now ?t key val] s2
    have "maxsize c2 = maxsize c" "length (chain c2) \<le> nat (maxsize c)"
      by (simp_all add: TTLCache_def)
    note u2 = upd [OF this]
    from s2 u2 bounded_stats(3) [of r1] f show ?thesis by (cases e2) simp_all
  qed
  from g own tmp show ?thesis
    by (simp add: repo_set_def Let_def split: option.splits)
qed

lemma calls_bounded:
  "bounded r \<Longrightarrow> bounded (calls r cs) \<and> default_maxsize (calls r cs) = default_maxsize r"
proof (induction cs arbitrary: r)
  case Nil
  then show ?case by (simp add: calls_def)
next
  case (Cons a cs)
  have "bounded (call r a) \<and> default_maxsize (call r a) = default_maxsize r"
  proof (cases a)
    case (Get now key ns)
    with repo_get_bounded [OF Cons.prems, of now key ns] show ?thesis by simp
  next
    case (Set now key val t ns)
    with repo_set_bounded [OF Cons.prems, of now key val t ns] show ?thesis by simp
  qed
  with Cons.IH [of "call r a"] show ?case by (simp add: calls_def)
qed

subsection \<open>Round trip and expiry\<close>

lemma setitem_fresh:
  "1 \<le> m \<Longrightarrow> setitem now (TTLCache m t) k v =
     (None, \<lparr>maxsize = m, ttl = t, chain = [(k, v, now + t)], lru = [k]\<rparr>)"
  by (simp add: setitem_def TTLCache_def expire_def Let_def evict.simps store_def)

lemma cache_get_single:
  "cache_get t \<lparr>maxsize = m, ttl = d, chain = [(k, v, e)], lru = [k]\<rparr> k =
     (if t < e then v else None, \<lparr>maxsize = m, ttl = d, chain = [(k, v, e)], lru = [k]\<rparr>)"
  by (simp add: cache_get_def contains_def getitem_def Let_def)

lemma repo_get_expired:
  assumes "caches r ns = Some c" and "map_of (chain c) k = Some (v, e)" and "e \<le> t"
  shows "fst (repo_get t r k ns) = None"
  using assms
  by (simp add: repo_get_def repo_get_cache_def cache_get_def contains_def Let_def)

lemma repo_set_ttl:
  assumes "bounded r" and "0 < default_maxsize r" and "0 < n"
  shows "\<exists>r1. repo_set now r k v (Some n) ns =
           (True, r1\<lparr>caches := (caches r1)(ns \<mapsto>
              \<lparr>maxsize = default_maxsize r, ttl = real_of_int n,
               chain = [(k, v, now + real_of_int n)], lru = [k]\<rparr>)\<rparr>)"
proof -
  obtain c r1 where g: "repo_get_cache r ns = (c, r1)" by (cases "repo_get_cache r ns")
  from repo_get_cache_bounded [OF assms(1) g] have m: "maxsize c = default_maxsize r" by simp
  with assms(2) have "1 \<le> maxsize c" by simp
  from setitem_fresh [OF this, of now "real_of_int n" k v] g assms(3) m
  show ?thesis by (auto simp: repo_set_def Let_def)
qed

lemma repo_get_after:
  "fst (repo_get t (r1\<lparr>caches := (caches r1)(ns \<mapsto>
              \<lparr>maxsize = m, ttl = d, chain = [(k, v, e)], lru = [k]\<rparr>)\<rparr>) k ns)
   = (if t < e then v else None)"
  by (simp add: repo_get_def repo_get_cache_def cache_get_single Let_def)

text \<open>
  Claim C3. Let \<open>r\<close> be a repository built with a positive \<open>maxsize\<close> and used through
  any calls. Then \<^verbatim>\<open>set(k, v, ttl=n, namespace=ns)\<close> with a positive \<open>n\<close> (the
  claim's 60 is one such \<open>n\<close>) answers \<^verbatim>\<open>True\<close>; a \<^verbatim>\<open>get(k, ns)\<close> at any
  clock reading before \<open>now + n\<close> returns \<open>v\<close>, and at any reading from \<open>now + n\<close> on
  it returns \<^verbatim>\<open>None\<close>. More generally, in any state of any repository, a key whose
  link has the expiry time \<open>e\<close> is not returned by a \<^verbatim>\<open>get\<close> at a reading
  \<open>t \<ge> e\<close>.
\<close>

theorem cache_round_trip:
  fixes r :: "'v memory_cache_repository"
  assumes "0 < msize" and "0 < n" and "r = calls (MemoryCacheRepository dttl msize t0) cs"
  shows "fst (repo_set now r k v (Some n) ns) \<and>
         (\<forall>t. t < now + real_of_int n \<longrightarrow>
              fst (repo_get t (snd (repo_set now r k v (Some n) ns)) k ns) = v) \<and>
         (\<forall>t. now + real_of_int n \<le> t \<longrightarrow>
              fst (repo_get t (snd (repo_set now r k v (Some n) ns)) k ns) = None) \<and>
         (\<forall>(r' :: 'v memory_cache_repository) c v' e t.
              caches r' ns = Some c \<and> map_of (chain c) k = Some (v', e) \<and> e \<le> t \<longrightarrow>
              fst (repo_get t r' k ns) = None)"
proof -
  from calls_bounded [OF bounded_init, of dttl msize t0 cs] assms(3)
  have b: "bounded r" and m: "default_maxsize r = msize"
    by (simp_all add: MemoryCacheRepository_def)
  from repo_set_ttl [OF b _ assms(2), of now k v ns] assms(1) m
  obtain r1 where s: "repo_set now r k v (Some n) ns =
           (True, r1\<lparr>caches := (caches r1)(ns \<mapsto>
              \<lparr>maxsize = default_maxsize r, ttl = real_of_int n,
               chain = [(k, v, now + real_of_int n)], lru = [k]\<rparr>)\<rparr>)"
    by auto
  show ?thesis
    using repo_get_expired by (simp add: s repo_get_after) blast
qed

lemmas cache_eval = calls_def MemoryCacheRepository_def repo_set_def repo_get_def
  repo_get_cache_def TTLCache_def setitem_def expire_def evict.simps store_def Let_def
  cache_get_def contains_def getitem_def popitem_def delitem_def live_def

theorem cache_round_trip_witness:
  "(0::int) < 1000 \<and> (0::int) < 60
   \<and> fst (repo_set 100 (calls (MemoryCacheRepository 3600 1000 0) [Set 5 ''j'' (Some 1) None ''lessons''])
          ''k'' (Some (7::nat)) (Some 60) ''lessons'')
   \<and> fst (repo_get 159
          (snd (repo_set 100 (calls (MemoryCacheRepository 3600 1000 0) [Set 5 ''j'' (Some 1) None ''lessons''])
             ''k'' (Some (7::nat)) (Some 60) ''lessons'')) ''k'' ''lessons'') = Some 7
   \<and> fst (repo_get 160
          (snd (repo_set 100 (calls (MemoryCacheRepository 3600 1000 0) [Set 5 ''j'' (Some 1) None ''lessons''])
             ''k'' (Some (7::nat)) (Some 60) ''lessons'')) ''k'' ''lessons'') = None
   \<and> caches (calls (MemoryCacheRepository 3600 1000 0) [Set 5 ''k'' (Some (1::nat)) None ''lessons''])
         ''lessons'' = Some \<lparr>maxsize = 1000, ttl = 3600, chain = [(''k'', Some 1, 3605)], lru = [''k'']\<rparr>
   \<and> fst (repo_get 3605 (calls (MemoryCacheRepository 3600 1000 0) [Set 5 ''k'' (Some (1::nat)) None ''lessons''])
         ''k'' ''lessons'') = None"
  using cache_round_trip [of 1000 60
      "calls (MemoryCacheRepository 3600 1000 0) [Set 5 ''j'' (Some 1) None ''lessons'']"
      3600 0 "[Set 5 ''j'' (Some 1) None ''lessons'']" 100 "''k''" "Some (7::nat)" "''lessons''"]
  by (simp add: cache_eval)

subsection \<open>The in-memory caches of main.py\<close>

text \<open>\<^verbatim>\<open>CACHE_CONFIG\<close>: namespace, \<^verbatim>\<open>ttl\<close>, \<^verbatim>\<open>max_size\<close>.\<close>

definition CACHE_CONFIG :: "(string \<times> int \<times> int) list" where
  "CACHE_CONFIG =
     [(''lessons'', 7200, 1000), (''tts'', 3600, 500), (''history'', 300, 100),
      (''popular'', 86400, 50), (''math'', 1800, 200)]"

text \<open>\<^verbatim>\<open>caches\<close>: one \<^verbatim>\<open>TTLCache(maxsize=max_size, ttl=ttl)\<close> per configured
  namespace.\<close>

definition caches_main :: "string \<rightharpoonup> (string, 'v option) ttl_cache" where
  "caches_main = map_of (map (\<lambda>(ns, t, m). (ns, TTLCache m (real_of_int t))) CACHE_CONFIG)"

text \<open>\<^verbatim>\<open>set_cache(key, value, ttl, namespace)\<close> of the in-memory branch:
  \<^verbatim>\<open>cache = caches.get(namespace); if cache: cache[key] = value; return True\<close>, else
  \<^verbatim>\<open>return False\<close>. The \<^verbatim>\<open>ttl\<close> argument is not used. The truth value of a cache
  is that of its length, which \<^verbatim>\<open>__len__\<close> takes after expiring. An exception of
  \<^verbatim>\<open>cache[key] = value\<close> is not caught here.\<close>

definition set_cache ::
  "real \<Rightarrow> (string \<rightharpoonup> (string, 'v option) ttl_cache) \<Rightarrow> string \<Rightarrow> 'v option \<Rightarrow> int option \<Rightarrow> string
     \<Rightarrow> (py_error + bool) \<times> (string \<rightharpoonup> (string, 'v option) ttl_cache)" where
  "set_cache now cs key val t ns =
     (case cs ns of
        None \<Rightarrow> (Inr False, cs)
      | Some c \<Rightarrow>
          (let c1 = expire now c in
           if chain c1 \<noteq> []
           then (case setitem now c1 key val of
                   (None, c2) \<Rightarrow> (Inr True, cs(ns \<mapsto> c2))
                 | (Some e, c2) \<Rightarrow> (Inl e, cs(ns \<mapsto> c2)))
           else (Inr False, cs(ns \<mapsto> c1))))"

text \<open>A sequence of insertions through \<^verbatim>\<open>set_cache\<close>.\<close>

fun set_cache_all ::
  "(string \<rightharpoonup> (string, 'v option) ttl_cache) \<Rightarrow> (real \<times> string \<times> 'v option \<times> int option \<times> string) list
     \<Rightarrow> (string \<rightharpoonup> (string, 'v option) ttl_cache)" where
  "set_cache_all cs [] = cs"
| "set_cache_all cs ((now, key, val, t, ns) # xs) =
     set_cache_all (snd (set_cache now cs key val t ns)) xs"

subsection \<open>The eviction bound\<close>

lemma expire_empty: "chain c = [] \<Longrightarrow> lru c = [] \<Longrightarrow> expire now c = c"
  by (simp add: expire_def)

definition unused :: "(string \<rightharpoonup> (string, 'v option) ttl_cache) \<Rightarrow> bool" where
  "unused cs = (\<forall>ns c. cs ns = Some c \<longrightarrow> chain c = [] \<and> lru c = [])"

lemma set_cache_unused:
  assumes "unused cs"
  shows "set_cache now cs key val t ns = (Inr False, cs)"
proof (cases "cs ns")
  case None
  then show ?thesis by (simp add: set_cache_def)
next
  case (Some c)
  with assms have e: "chain c = []" "lru c = []" by (auto simp: unused_def)
  from expire_empty [OF e] have "expire now c = c" .
  with Some e show ?thesis by (simp add: set_cache_def Let_def map_upd_triv)
qed

lemma set_cache_all_unused: "unused cs \<Longrightarrow> set_cache_all cs xs = cs"
proof (induction xs arbitrary: cs)
  case Nil
  then show ?case by simp
next
  case (Cons x xs)
  obtain now key val t ns where x: "x = (now, key, val, t, ns)" by (cases x)
  with Cons set_cache_unused [OF Cons.prems] show ?case by simp
qed

lemma caches_main_unused: "unused caches_main"
  by (auto simp: unused_def caches_main_def CACHE_CONFIG_def TTLCache_def split: if_splits)

lemma live_bound:
  assumes "bounded r"
  shows "length (live now r ns) \<le> nat (default_maxsize r)"
proof (cases "caches r ns")
  case None
  then show ?thesis by (simp add: live_def)
next
  case (Some c)
  with assms have "length (chain c) \<le> nat (default_maxsize r)" by (auto simp: bounded_def)
  moreover have "length (filter (\<lambda>(k, v, e). now < e) (chain c)) \<le> length (chain c)" by simp
  ultimately show ?thesis using Some by (simp add: live_def del: length_filter_le)
qed

lemma repo_set_other_namespace:
  "ns' \<noteq> ns \<Longrightarrow> caches (snd (repo_set now r key val t ns)) ns' = caches r ns'"
  by (auto simp: repo_set_def repo_get_cache_def Let_def split: option.splits prod.splits)

text \<open>
  Claim C9. A repository built with the capacity \<open>msize\<close> and used through any
  sequence of calls, at any clock readings and with any keys, holds in every namespace at
  most \<open>msize\<close> items that a lookup can still return (\<open>nat msize\<close> is \<open>msize\<close>, and 0
  for a negative capacity). A \<^verbatim>\<open>set\<close> into one namespace leaves the cache of every
  other namespace as it was. The same bound holds for each namespace of main.py's
  \<^verbatim>\<open>caches\<close>, with its configured \<^verbatim>\<open>max_size\<close>, after any sequence of
  \<^verbatim>\<open>set_cache\<close> calls.
\<close>

theorem eviction_bound:
  fixes cs :: "'v cache_call list" and r :: "'v memory_cache_repository"
    and xs :: "(real \<times> string \<times> 'v option \<times> int option \<times> string) list"
  shows "length (live now (calls (MemoryCacheRepository dttl msize t0) cs) ns) \<le> nat msize \<and>
         (\<forall>ns'. ns' \<noteq> ns \<longrightarrow> caches (snd (repo_set t r key val n ns)) ns' = caches r ns') \<and>
         (\<forall>(ns1, t1, m1) \<in> set CACHE_CONFIG.
            case set_cache_all caches_main xs ns1 of
              None \<Rightarrow> False
            | Some c \<Rightarrow> length (chain c) \<le> nat m1)"
proof -
  from calls_bounded [OF bounded_init, of dttl msize t0 cs]
  have "bounded (calls (MemoryCacheRepository dttl msize t0) cs)"
    and "default_maxsize (calls (MemoryCacheRepository dttl msize t0) cs) = msize"
    by (simp_all add: MemoryCacheRepository_def)
  with live_bound [of "calls (MemoryCacheRepository dttl msize t0) cs" now ns]
  have a: "length (live now (calls (MemoryCacheRepository dttl msize t0) cs) ns) \<le> nat msize"
    by simp
  have c: "\<forall>(ns1, t1, m1) \<in> set CACHE_CONFIG.
            case set_cache_all (caches_main :: string \<rightharpoonup> (string, 'v option) ttl_cache) xs ns1 of
              None \<Rightarrow> False
            | Some c \<Rightarrow> length (chain c) \<le> nat m1"
    by (simp add: set_cache_all_unused [OF caches_main_unused])
       (simp add: caches_main_def CACHE_CONFIG_def TTLCache_def)
  from a c repo_set_other_namespace show ?thesis by blast
qed


theorem eviction_bound_witness:
  "length (live 3 (calls (MemoryCacheRepository 3600 2 0)
      [Set 1 ''a'' (Some (1::nat)) None ''ns'', Set 2 ''b'' (Some 2) None ''ns'',
       Set 3 ''c'' (Some 3) None ''ns'']) ''ns'') = 2
   \<and> map fst (live 3 (calls (MemoryCacheRepository 3600 2 0)
      [Set 1 ''a'' (Some (1::nat)) None ''ns'', Set 2 ''b'' (Some 2) None ''ns'',
       Set 3 ''c'' (Some 3) None ''ns'']) ''ns'') = [''b'', ''c'']
   \<and> ''tts'' \<noteq> ''ns''
   \<and> caches (snd (repo_set 4 (calls (MemoryCacheRepository 3600 2 0)
        [Set 1 ''a'' (Some (1::nat)) None ''tts'']) ''d'' (Some 4) None ''ns'')) ''tts''
       = caches (calls (MemoryCacheRepository 3600 2 0) [Set 1 ''a'' (Some (1::nat)) None ''tts'']) ''tts''
   \<and> (''popular'', 86400, 50) \<in> set CACHE_CONFIG
   \<and> set_cache_all caches_main [(1, ''a'', Some (1::nat), None, ''popular'')] ''popular''
       = Some (TTLCache 50 86400)"
  using eviction_bound [of 3 3600 2 0
      "[Set 1 ''a'' (Some (1::nat)) None ''ns'', Set 2 ''b'' (Some 2) None ''ns'',
        Set 3 ''c'' (Some 3) None ''ns'']" "''ns''" 4
      "calls (MemoryCacheRepository 3600 2 0) [Set 1 ''a'' (Some (1::nat)) None ''tts'']"
      "''d''" "Some 4" None "[(1, ''a'', Some (1::nat), None, ''popular'')]"]
  by (simp add: cache_eval CACHE_CONFIG_def caches_main_def set_cache_def)

subsection \<open>What a set does to the other keys\<close>

text \<open>
  Claim C8, evaluated. The key \<open>k1\<close> is stored at clock reading 100 with the default
  ttl of 3600. A lookup at 102 returns its value; it still does after
  \<^verbatim>\<open>set(k2, 8)\<close> without a ttl; after \<^verbatim>\<open>set(k2, 8, ttl=60)\<close> at 101 the lookup
  of \<open>k1\<close> returns \<^verbatim>\<open>None\<close>, although \<open>k1\<close> has neither expired nor been evicted
  for capacity: the branch for a positive ttl replaces the namespace's cache by a new one
  that holds \<open>k2\<close> alone.
\<close>

theorem set_with_ttl_drops_other_keys:
  "fst (repo_get 102 (calls (MemoryCacheRepository 3600 1000 0)
          [Set 100 ''k1'' (Some (7::nat)) None ''lessons'']) ''k1'' ''lessons'') = Some 7
   \<and> fst (repo_get 102 (calls (MemoryCacheRepository 3600 1000 0)
          [Set 100 ''k1'' (Some (7::nat)) None ''lessons'',
           Set 101 ''k2'' (Some 8) None ''lessons'']) ''k1'' ''lessons'') = Some 7
   \<and> fst (repo_get 102 (calls (MemoryCacheRepository 3600 1000 0)
          [Set 100 ''k1'' (Some (7::nat)) None ''lessons'',
           Set 101 ''k2'' (Some 8) (Some 60) ''lessons'']) ''k1'' ''lessons'') = None"
  by (simp add: cache_eval)

section \<open>Strings\<close>

text \<open>
  A Python string is a \<open>string\<close>: the list of its characters, each a code point below
  256. \<^verbatim>\<open>str.strip()\<close> removes leading and trailing whitespace; among the code
  points below 256 the whitespace characters are 9 to 13, 28 to 32, 133 and 160.
\<close>

definition isspace :: "char \<Rightarrow> bool" where
  "isspace c =
     (let n = (of_char c :: nat)
      in (9 \<le> n \<and> n \<le> 13) \<or> (28 \<le> n \<and> n \<le> 32) \<or> n = 133 \<or> n = 160)"

definition lstrip :: "string \<Rightarrow> string" where
  "lstrip s = dropWhile isspace s"

definition rstrip :: "string \<Rightarrow> string" where
  "rstrip s = rev (dropWhile isspace (rev s))"

definition strip :: "string \<Rightarrow> string" where
  "strip s = rstrip (lstrip s)"

text \<open>\<^verbatim>\<open>str(n)\<close> for an integer: the decimal digits, after a minus sign for a
  negative one.\<close>

definition digit_char :: "nat \<Rightarrow> char" where
  "digit_char d = ''0123456789'' ! d"

function digits :: "nat \<Rightarrow> string" where
  "digits n = (if n < 10 then [digit_char n] else digits (n div 10) @ [digit_char (n mod 10)])"
  by pat_completeness auto
termination
  by (relation "measure id") auto

declare digits.simps [simp del]

definition str_int :: "int \<Rightarrow> string" where
  "str_int i = (if i < 0 then CHR ''-'' # digits (nat (- i)) else digits (nat i))"

section \<open>The rate limiter\<close>

subsection \<open>RateLimitMiddleware\<close>

text \<open>
  The middleware's fields: the default limits, the table \<^verbatim>\<open>endpoint_limits\<close> (path,
  \<^verbatim>\<open>per_minute\<close>, \<^verbatim>\<open>per_hour\<close>), and the in-process counters: \<^verbatim>\<open>memory_store\<close>
  maps a window key to the list of the timestamps counted in it.
\<close>

record rate_limit_middleware =
  calls_per_minute :: int
  calls_per_hour :: int
  endpoint_limits :: "(string \<times> int \<times> int) list"
  memory_store :: "string \<rightharpoonup> real list"
  cleanup_interval :: real
  last_cleanup :: real

text \<open>The two tables of \<^verbatim>\<open>__init__\<close>, for production and otherwise.\<close>

definition endpoint_limits_prod :: "(string \<times> int \<times> int) list" where
  "endpoint_limits_prod =
     [(''/api/structured-lesson'', 20, 300), (''/api/structured-lesson/stream'', 20, 300),
      (''/api/tts'', 15, 150), (''/api/solve-math'', 30, 400), (''/api/social'', 50, 500)]"

definition endpoint_limits_dev :: "(string \<times> int \<times> int) list" where
  "endpoint_limits_dev =
     [(''/api/structured-lesson'', 30, 500), (''/api/structured-lesson/stream'', 30, 500),
      (''/api/tts'', 20, 200), (''/api/solve-math'', 40, 600), (''/api/social'', 100, 1000)]"

text \<open>\<^verbatim>\<open>__init__(app, calls_per_minute=60, calls_per_hour=1000)\<close> at the clock
  reading \<open>now\<close>; \<open>is_prod\<close> is the test of the environment variable.\<close>

definition RateLimitMiddleware :: "bool \<Rightarrow> int \<Rightarrow> int \<Rightarrow> real \<Rightarrow> rate_limit_middleware" where
  "RateLimitMiddleware is_prod per_min per_hr now =
     \<lparr>calls_per_minute = per_min, calls_per_hour = per_hr,
      endpoint_limits = (if is_prod then endpoint_limits_prod else endpoint_limits_dev),
      memory_store = Map.empty, cleanup_interval = 300, last_cleanup = now\<rparr>"

text \<open>\<^verbatim>\<open>cleanup_memory_store\<close>: drops the timestamps that are an hour old, then
  the keys left without timestamps.\<close>

definition cleanup_memory_store :: "real \<Rightarrow> (string \<rightharpoonup> real list) \<Rightarrow> (string \<rightharpoonup> real list)" where
  "cleanup_memory_store now st =
     (\<lambda>key. case st key of
               None \<Rightarrow> None
             | Some timestamps \<Rightarrow>
                 (let kept = filter (\<lambda>timestamp. now - timestamp < 3600) timestamps
                  in if kept = [] then None else Some kept))"

text \<open>\<^verbatim>\<open>check_rate_limit_memory(key, limit, window)\<close>: the answer
  \<^verbatim>\<open>(allowed, count)\<close> and the middleware after the call.\<close>

definition check_rate_limit_memory ::
  "real \<Rightarrow> rate_limit_middleware \<Rightarrow> string \<Rightarrow> int \<Rightarrow> int \<Rightarrow> (bool \<times> int) \<times> rate_limit_middleware" where
  "check_rate_limit_memory current_time m key limit window =
     (let m1 = (if current_time - last_cleanup m > cleanup_interval m
                then m\<lparr>memory_store := cleanup_memory_store current_time (memory_store m),
                       last_cleanup := current_time\<rparr>
                else m);
          stored = (case memory_store m1 key of None \<Rightarrow> [] | Some timestamps \<Rightarrow> timestamps);
          window_start = current_time - real_of_int window;
          kept = filter (\<lambda>timestamp. timestamp > window_start) stored;
          current_count = int (length kept)
      in if current_count < limit
         then ((True, current_count + 1),
               m1\<lparr>memory_store := (memory_store m1)(key \<mapsto> kept @ [current_time])\<rparr>)
         else ((False, current_count),
               m1\<lparr>memory_store := (memory_store m1)(key \<mapsto> kept)\<rparr>))"




text \<open>The window keys of \<^verbatim>\<open>dispatch\<close>:
  \<^verbatim>\<open>f"rate_limit:{client_ip}:{endpoint}:minute:{int(time.time() // 60)}"\<close> and the
  same with \<^verbatim>\<open>hour\<close> and 3600.\<close>

definition minute_key :: "string \<Rightarrow> string \<Rightarrow> real \<Rightarrow> string" where
  "minute_key client_ip endpoint now =
     ''rate_limit:'' @ client_ip @ '':'' @ endpoint @ '':minute:'' @ str_int \<lfloor>now / 60\<rfloor>"

definition hour_key :: "string \<Rightarrow> string \<Rightarrow> real \<Rightarrow> string" where
  "hour_key client_ip endpoint now =
     ''rate_limit:'' @ client_ip @ '':'' @ endpoint @ '':hour:'' @ str_int \<lfloor>now / 3600\<rfloor>"

text \<open>
  The shared counter store (Redis) is outside the sources. What it answers to one
  \<^verbatim>\<open>check_rate_limit_redis\<close> call is an input of the model: \<open>Some n\<close> when the
  pipeline ran and \<^verbatim>\<open>zcard\<close> answered \<open>n\<close>, so that the call returns
  \<^verbatim>\<open>(n < limit, n)\<close>; \<open>None\<close> when \<^verbatim>\<open>redis_cache\<close> is not defined or the
  pipeline raised, so that the in-process counters decide.
\<close>

definition check_rate_limit ::
  "int option \<Rightarrow> real \<Rightarrow> rate_limit_middleware \<Rightarrow> string \<Rightarrow> int \<Rightarrow> int
     \<Rightarrow> (bool \<times> int) \<times> rate_limit_middleware" where
  "check_rate_limit redis now m key limit window =
     (case redis of
        Some current_count \<Rightarrow> ((current_count < limit, current_count), m)
      | None \<Rightarrow> check_rate_limit_memory now m key limit window)"






subsection \<open>Window keys are told apart\<close>

lemma digits_nonempty: "digits n \<noteq> []"
  by (subst digits.simps) simp

lemma digit_char_inj: "a < 10 \<Longrightarrow> b < 10 \<Longrightarrow> digit_char a = digit_char b \<Longrightarrow> a = b"
proof -
  assume a: "a < 10" and b: "b < 10" and e: "digit_char a = digit_char b"
  have d: "distinct ''0123456789''" by simp
  have l: "length ''0123456789'' = 10" by simp
  from e have "''0123456789'' ! a = ''0123456789'' ! b" by (simp add: digit_char_def)
  with nth_eq_iff_index_eq [OF d, of a b] a b l show "a = b" by simp
qed

lemma digits_inj: "digits n = digits m \<Longrightarrow> n = m"
proof (induction n arbitrary: m rule: digits.induct)
  case (1 n)
  show ?case
  proof (cases "n < 10")
    case n: True
    show ?thesis
    proof (cases "m < 10")
      case True
      with n "1.prems" digit_char_inj [of n m] show ?thesis
        by (simp add: digits.simps [of n] digits.simps [of m])
    next
      case False
      with n "1.prems" digits_nonempty [of "m div 10"] show ?thesis
        by (simp add: digits.simps [of n] digits.simps [of m])
    qed
  next
    case n: False
    show ?thesis
    proof (cases "m < 10")
      case True
      with n "1.prems" digits_nonempty [of "n div 10"] show ?thesis
        by (simp add: digits.simps [of n] digits.simps [of m])
    next
      case False
      with n "1.prems" have e: "digits (n div 10) = digits (m div 10)"
        and d: "digit_char (n mod 10) = digit_char (m mod 10)"
        by (simp_all add: digits.simps [of n] digits.simps [of m])
      from "1.IH" [OF n e] have "n div 10 = m div 10" .
      moreover from digit_char_inj [OF _ _ d] have "n mod 10 = m mod 10" by simp
      ultimately show ?thesis by (metis div_mult_mod_eq)
    qed
  qed
qed

lemma digit_char_not_minus: "d < 10 \<Longrightarrow> digit_char d \<noteq> CHR ''-''"
proof -
  assume "d < 10"
  then have "d \<in> {0,1,2,3,4,5,6,7,8,9}" by auto
  then show ?thesis by (auto simp: digit_char_def)
qed

lemma digits_no_minus: "CHR ''-'' \<notin> set (digits n)"
proof (induction n rule: digits.induct)
  case (1 n)
  show ?case
  proof (cases "n < 10")
    case True
    with digit_char_not_minus [of n] show ?thesis
      by (subst digits.simps) (simp add: eq_commute)
  next
    case False
    with "1.IH" digit_char_not_minus [of "n mod 10"] show ?thesis
      by (subst digits.simps) (simp add: eq_commute)
  qed
qed

lemma str_int_inj: "str_int a = str_int b \<Longrightarrow> a = b"
proof -
  assume e: "str_int a = str_int b"
  have neg: "hd (digits n) \<noteq> CHR ''-''" for n
    using digits_no_minus [of n] digits_nonempty [of n] by (cases "digits n") auto
  show ?thesis
  proof (cases "a < 0")
    case a: True
    show ?thesis
    proof (cases "b < 0")
      case True
      with a e digits_inj [of "nat (- a)" "nat (- b)"] show ?thesis by (simp add: str_int_def)
    next
      case False
      with a e have "CHR ''-'' # digits (nat (- a)) = digits (nat b)" by (simp add: str_int_def)
      with neg [of "nat b"] show ?thesis by (metis list.sel(1))
    qed
  next
    case a: False
    show ?thesis
    proof (cases "b < 0")
      case True
      with a e have "digits (nat a) = CHR ''-'' # digits (nat (- b))" by (simp add: str_int_def)
      with neg [of "nat a"] show ?thesis by (metis list.sel(1))
    next
      case False
      with a e digits_inj [of "nat a" "nat b"] show ?thesis by (simp add: str_int_def)
    qed
  qed
qed

lemma minute_key_inj:
  "minute_key ip ep s = minute_key ip ep t \<Longrightarrow> \<lfloor>s / 60\<rfloor> = \<lfloor>t / 60\<rfloor>"
  by (simp add: minute_key_def str_int_inj)

lemma minute_key_not_hour: "minute_key ip ep s \<noteq> hour_key ip ep t"
  by (simp add: minute_key_def hour_key_def)

subsection \<open>The counters as lists\<close>

text \<open>The timestamps counted under a key; a key that is not in the store counts
  none.\<close>

definition entries :: "rate_limit_middleware \<Rightarrow> string \<Rightarrow> real list" where
  "entries m key = (case memory_store m key of None \<Rightarrow> [] | Some timestamps \<Rightarrow> timestamps)"

text \<open>The same after the periodic cleanup, when the call at \<open>now\<close> runs it.\<close>

definition swept :: "real \<Rightarrow> rate_limit_middleware \<Rightarrow> string \<Rightarrow> real list" where
  "swept now m key =
     (if now - last_cleanup m > cleanup_interval m
      then filter (\<lambda>timestamp. now - timestamp < 3600) (entries m key)
      else entries m key)"

text \<open>The timestamps of a key that \<^verbatim>\<open>check_rate_limit_memory\<close> still counts at
  \<open>now\<close>: those younger than the window.\<close>

definition in_window :: "real \<Rightarrow> rate_limit_middleware \<Rightarrow> string \<Rightarrow> int \<Rightarrow> real list" where
  "in_window now m key window =
     filter (\<lambda>timestamp. timestamp > now - real_of_int window) (swept now m key)"

lemma entries_cleanup:
  "entries (m\<lparr>memory_store := cleanup_memory_store now (memory_store m), last_cleanup := t\<rparr>) key
     = filter (\<lambda>timestamp. now - timestamp < 3600) (entries m key)"
  by (simp add: entries_def cleanup_memory_store_def Let_def split: option.splits)

lemma check_memory_view:
  assumes "check_rate_limit_memory now m key limit window = ((ok, count), m')"
  defines "kept \<equiv> filter (\<lambda>timestamp. timestamp > now - real_of_int window) (swept now m key)"
  shows "ok = (int (length kept) < limit)"
    and "count = (if ok then int (length kept) + 1 else int (length kept))"
    and "entries m' key = (if ok then kept @ [now] else kept)"
    and "\<And>k. k \<noteq> key \<Longrightarrow> entries m' k = swept now m k"
    and "endpoint_limits m' = endpoint_limits m"
    and "calls_per_minute m' = calls_per_minute m"
    and "calls_per_hour m' = calls_per_hour m"
proof -
  let ?m1 = "if now - last_cleanup m > cleanup_interval m
                then m\<lparr>memory_store := cleanup_memory_store now (memory_store m),
                       last_cleanup := now\<rparr>
                else m"
  have e: "entries ?m1 k = swept now m k" for k
    by (simp add: swept_def entries_cleanup)
  have c: "endpoint_limits ?m1 = endpoint_limits m" "calls_per_minute ?m1 = calls_per_minute m"
    "calls_per_hour ?m1 = calls_per_hour m" by simp_all
  have k: "kept = filter (\<lambda>timestamp. timestamp > now - real_of_int window)
             (case memory_store ?m1 key of None \<Rightarrow> [] | Some timestamps \<Rightarrow> timestamps)"
    unfolding kept_def e [symmetric] entries_def ..
  from assms(1) show "ok = (int (length kept) < limit)"
    unfolding check_rate_limit_memory_def Let_def k by (auto split: if_splits)
  from assms(1) show "count = (if ok then int (length kept) + 1 else int (length kept))"
    unfolding check_rate_limit_memory_def Let_def k by (auto split: if_splits)
  from assms(1) show "entries m' key = (if ok then kept @ [now] else kept)"
    unfolding check_rate_limit_memory_def Let_def k by (auto simp: entries_def split: if_splits)
  from assms(1) c show "endpoint_limits m' = endpoint_limits m"
    "calls_per_minute m' = calls_per_minute m" "calls_per_hour m' = calls_per_hour m"
    unfolding check_rate_limit_memory_def Let_def by (auto split: if_splits)
  fix k assume "k \<noteq> key"
  with assms(1) have "entries m' k = entries ?m1 k"
    unfolding check_rate_limit_memory_def Let_def by (auto simp: entries_def split: if_splits)
  with e show "entries m' k = swept now m k" by simp
qed


definition in_bucket :: "int \<Rightarrow> real list \<Rightarrow> bool" where
  "in_bucket b xs = (\<forall>x \<in> set xs. \<lfloor>x / 60\<rfloor> = b)"



lemma in_bucket_snoc: "in_bucket b xs \<Longrightarrow> \<lfloor>now / 60\<rfloor> = b \<Longrightarrow> in_bucket b (xs @ [now])"
  by (simp add: in_bucket_def)






subsection \<open>One client among the others\<close>


































subsection \<open>The sixth request and the next bucket\<close>




subsection \<open>Comparing and counting\<close>

text \<open>
  Claim C6 as stated fails on the in-process counters. Five requests at the clock readings
  120 to 124 fill the window of a key with the limit 5. The next request, at 125, is
  answered \<^verbatim>\<open>(False, 5)\<close>: the reported count is the count before the request, not
  that count plus one, and the window of the key holds the same five timestamps before and
  after the call.
\<close>

theorem rejected_request_not_counted:
  "fst (check_rate_limit_memory 125
          (foldl (\<lambda>m t. snd (check_rate_limit_memory t m ''k'' 5 60))
             (RateLimitMiddleware False 60 1000 0) [120, 121, 122, 123, 124])
          ''k'' 5 60) = (False, 5)
   \<and> memory_store (foldl (\<lambda>m t. snd (check_rate_limit_memory t m ''k'' 5 60))
             (RateLimitMiddleware False 60 1000 0) [120, 121, 122, 123, 124]) ''k''
       = Some [120, 121, 122, 123, 124]
   \<and> memory_store (snd (check_rate_limit_memory 125
          (foldl (\<lambda>m t. snd (check_rate_limit_memory t m ''k'' 5 60))
             (RateLimitMiddleware False 60 1000 0) [120, 121, 122, 123, 124])
          ''k'' 5 60)) ''k'' = Some [120, 121, 122, 123, 124]"
  by (simp add: check_rate_limit_memory_def RateLimitMiddleware_def Let_def)

text \<open>
  Claim C6, amended. \<^verbatim>\<open>check_rate_limit_memory\<close> compares before it counts: the
  request is allowed exactly when the number of timestamps still in the window is below
  the limit; an allowed request is appended to the window and reported with that number
  plus one; a request over the limit leaves the window as it is and is reported with that
  number. With the shared store the reported count is the store's count, compared as it
  is.
\<close>

theorem limit_compared_before_counting:
  assumes "check_rate_limit_memory now m key limit window = ((ok, count), m')"
  shows "ok = (int (length (in_window now m key window)) < limit) \<and>
         count = (if ok then int (length (in_window now m key window)) + 1
                  else int (length (in_window now m key window))) \<and>
         entries m' key = (if ok then in_window now m key window @ [now]
                           else in_window now m key window) \<and>
         check_rate_limit (Some n) now m key limit window = ((n < limit, n), m)"
  using check_memory_view(1,2,3) [OF assms]
  by (simp add: in_window_def check_rate_limit_def)

theorem limit_compared_before_counting_witness:
  "check_rate_limit_memory 125
      ((RateLimitMiddleware False 60 1000 0)\<lparr>memory_store := [''k'' \<mapsto> [60, 121, 122]]\<rparr>) ''k'' 5 60
     = ((True, 3), (RateLimitMiddleware False 60 1000 0)\<lparr>memory_store := [''k'' \<mapsto> [121, 122, 125]]\<rparr>)
   \<and> in_window 125 ((RateLimitMiddleware False 60 1000 0)\<lparr>memory_store := [''k'' \<mapsto> [60, 121, 122]]\<rparr>)
        ''k'' 60 = [121, 122]
   \<and> entries ((RateLimitMiddleware False 60 1000 0)\<lparr>memory_store := [''k'' \<mapsto> [121, 122, 125]]\<rparr>) ''k''
       = [121, 122, 125]"
  using limit_compared_before_counting [of 125
      "(RateLimitMiddleware False 60 1000 0)\<lparr>memory_store := [''k'' \<mapsto> [60, 121, 122]]\<rparr>" "''k''" 5 60
      True 3 "(RateLimitMiddleware False 60 1000 0)\<lparr>memory_store := [''k'' \<mapsto> [121, 122, 125]]\<rparr>" 0]
  by (simp add: check_rate_limit_memory_def RateLimitMiddleware_def Let_def in_window_def swept_def
      entries_def)

section \<open>Cache keys\<close>

subsection \<open>Lower-casing and encoding\<close>

text \<open>\<^verbatim>\<open>str.lower()\<close> on the code points below 256: the letters A to Z, and
  the capital letters 192 to 222 but for the multiplication sign 215, move up by 32.\<close>

definition lower_char :: "char \<Rightarrow> char" where
  "lower_char c =
     (let n = (of_char c :: nat)
      in if (65 \<le> n \<and> n \<le> 90) \<or> (192 \<le> n \<and> n \<le> 222 \<and> n \<noteq> 215)
         then char_of (n + 32) else c)"

definition lower :: "string \<Rightarrow> string" where
  "lower s = map lower_char s"

text \<open>\<^verbatim>\<open>str.encode()\<close>: UTF-8, two bytes for a code point from 128 on.\<close>

definition encode :: "string \<Rightarrow> nat list" where
  "encode s =
     concat (map (\<lambda>c. let n = (of_char c :: nat)
                      in if n < 128 then [n] else [192 + n div 64, 128 + n mod 64]) s)"

subsection \<open>The digest of hashlib.md5\<close>

text \<open>
  \<^verbatim>\<open>hashlib.md5(data).hexdigest()\<close> belongs to Python's library; the model is the
  MD5 algorithm itself on a list of bytes: the padding to whole blocks of 64 bytes, 64
  steps per block on four 32-bit words with the table of constants \<open>md5_K\<close> and of
  rotations \<open>md5_s\<close>, and the sixteen bytes of the result in lower-case hexadecimal.
\<close>

type_synonym w32 = "32 word"

definition md5_K :: "w32 list" where
  "md5_K =
    [0xd76aa478, 0xe8c7b756, 0x242070db, 0xc1bdceee, 0xf57c0faf, 0x4787c62a, 0xa8304613, 0xfd469501,
     0x698098d8, 0x8b44f7af, 0xffff5bb1, 0x895cd7be, 0x6b901122, 0xfd987193, 0xa679438e, 0x49b40821,
     0xf61e2562, 0xc040b340, 0x265e5a51, 0xe9b6c7aa, 0xd62f105d, 0x02441453, 0xd8a1e681, 0xe7d3fbc8,
     0x21e1cde6, 0xc33707d6, 0xf4d50d87, 0x455a14ed, 0xa9e3e905, 0xfcefa3f8, 0x676f02d9, 0x8d2a4c8a,
     0xfffa3942, 0x8771f681, 0x6d9d6122, 0xfde5380c, 0xa4beea44, 0x4bdecfa9, 0xf6bb4b60, 0xbebfbc70,
     0x289b7ec6, 0xeaa127fa, 0xd4ef3085, 0x04881d05, 0xd9d4d039, 0xe6db99e5, 0x1fa27cf8, 0xc4ac5665,
     0xf4292244, 0x432aff97, 0xab9423a7, 0xfc93a039, 0x655b59c3, 0x8f0ccc92, 0xffeff47d, 0x85845dd1,
     0x6fa87e4f, 0xfe2ce6e0, 0xa3014314, 0x4e0811a1, 0xf7537e82, 0xbd3af235, 0x2ad7d2bb, 0xeb86d391]"

definition md5_s :: "nat list" where
  "md5_s =
    [7, 12, 17, 22, 7, 12, 17, 22, 7, 12, 17, 22, 7, 12, 17, 22,
     5, 9, 14, 20, 5, 9, 14, 20, 5, 9, 14, 20, 5, 9, 14, 20,
     4, 11, 16, 23, 4, 11, 16, 23, 4, 11, 16, 23, 4, 11, 16, 23,
     6, 10, 15, 21, 6, 10, 15, 21, 6, 10, 15, 21, 6, 10, 15, 21]"

fun numbered :: "nat \<Rightarrow> 'a list \<Rightarrow> (nat \<times> 'a) list" where
  "numbered i [] = []"
| "numbered i (x # xs) = (i, x) # numbered (i + 1) xs"

definition rotl32 :: "w32 \<Rightarrow> nat \<Rightarrow> w32" where
  "rotl32 x n = (push_bit n x) OR (drop_bit (32 - n) x)"

definition md5_step :: "w32 list \<Rightarrow> (w32 \<times> w32 \<times> w32 \<times> w32) \<Rightarrow> nat \<times> w32 \<times> nat \<Rightarrow> (w32 \<times> w32 \<times> w32 \<times> w32)" where
  "md5_step M st r =
     (case st of (A, B, C, D) \<Rightarrow>
      case r of (i, K, s) \<Rightarrow>
        (let F = (if i < 16 then (B AND C) OR (NOT B AND D)
                  else if i < 32 then (D AND B) OR (NOT D AND C)
                  else if i < 48 then B XOR C XOR D
                  else C XOR (B OR NOT D));
             g = (if i < 16 then i
                  else if i < 32 then (5 * i + 1) mod 16
                  else if i < 48 then (3 * i + 5) mod 16
                  else (7 * i) mod 16);
             F' = F + A + K + M ! g
         in (D, B + rotl32 F' s, B, C)))"

fun le_words :: "nat list \<Rightarrow> w32 list" where
  "le_words (a # b # c # d # rest) = of_nat (a + 256 * b + 65536 * c + 16777216 * d) # le_words rest"
| "le_words _ = []"

definition md5_block :: "(w32 \<times> w32 \<times> w32 \<times> w32) \<Rightarrow> nat list \<Rightarrow> (w32 \<times> w32 \<times> w32 \<times> w32)" where
  "md5_block st block =
     (case st of (a0, b0, c0, d0) \<Rightarrow>
        (case foldl (md5_step (le_words block)) st (numbered 0 (zip md5_K md5_s)) of
           (A, B, C, D) \<Rightarrow> (a0 + A, b0 + B, c0 + C, d0 + D)))"

definition le_bytes4 :: "nat \<Rightarrow> nat list" where
  "le_bytes4 n = [n mod 256, (n div 256) mod 256, (n div 65536) mod 256, (n div 16777216) mod 256]"

function zeros :: "nat \<Rightarrow> nat list" where
  "zeros n = (if n = 0 then [] else 0 # zeros (n - 1))"
  by pat_completeness auto
termination
  by (relation "measure id") auto

declare zeros.simps [simp del]

definition md5_pad :: "nat list \<Rightarrow> nat list" where
  "md5_pad bs =
     bs @ [128] @ zeros ((119 - length bs mod 64) mod 64)
        @ le_bytes4 ((8 * length bs) mod 4294967296) @ le_bytes4 ((8 * length bs) div 4294967296)"

function blocks :: "nat list \<Rightarrow> nat list list" where
  "blocks bs = (if length bs < 64 then [] else take 64 bs # blocks (drop 64 bs))"
  by pat_completeness auto
termination
  by (relation "measure length") auto

declare blocks.simps [simp del]

definition md5 :: "nat list \<Rightarrow> nat list" where
  "md5 bs =
     (case foldl md5_block (0x67452301, 0xefcdab89, 0x98badcfe, 0x10325476) (blocks (md5_pad bs)) of
        (A, B, C, D) \<Rightarrow> le_bytes4 (unat A) @ le_bytes4 (unat B) @ le_bytes4 (unat C) @ le_bytes4 (unat D))"

definition hex_digit :: "nat \<Rightarrow> char" where
  "hex_digit d = ''0123456789abcdef'' ! d"

definition hexdigest :: "nat list \<Rightarrow> string" where
  "hexdigest bs = concat (map (\<lambda>b. [hex_digit (b div 16), hex_digit (b mod 16)]) bs)"

lemmas md5_eval = md5_def md5_pad_def zeros.simps blocks.simps md5_block_def md5_step_def md5_K_def md5_s_def
  rotl32_def le_bytes4_def hexdigest_def hex_digit_def Let_def

subsection \<open>The two keys\<close>

text \<open>\<^verbatim>\<open>get_cache_key(topic)\<close> of main.py:
  \<^verbatim>\<open>f"lesson:{hashlib.md5(topic.lower().strip().encode()).hexdigest()[:16]}"\<close>. The
  \<^verbatim>\<open>lru_cache\<close> around it stores results of a function that has no state.\<close>

definition get_cache_key :: "string \<Rightarrow> string" where
  "get_cache_key topic =
     (let topic_clean = strip (lower topic)
      in ''lesson:'' @ take 16 (hexdigest (md5 (encode topic_clean))))"

text \<open>The key that \<^verbatim>\<open>structured_lesson_handler\<close> of chat.py hands to
  \<^verbatim>\<open>_get_or_compute_lesson\<close>:
  \<^verbatim>\<open>hashlib.md5(f"{text}|{age}".encode()).hexdigest()[:16]\<close>, where an absent age
  prints as \<^verbatim>\<open>None\<close>.\<close>

definition format_age :: "int option \<Rightarrow> string" where
  "format_age age = (case age of None \<Rightarrow> ''None'' | Some a \<Rightarrow> str_int a)"

definition lesson_cache_key :: "string \<Rightarrow> int option \<Rightarrow> string" where
  "lesson_cache_key text age =
     take 16 (hexdigest (md5 (encode (text @ ''|'' @ format_age age))))"

subsection \<open>Normalisation\<close>

lemma isspace_lower_char: "isspace (lower_char c) = isspace c"
  by (auto simp: isspace_def lower_char_def Let_def)

lemma lower_char_idem: "lower_char (lower_char c) = lower_char c"
  by (auto simp: lower_char_def Let_def)

lemma lower_idem: "lower (lower s) = lower s"
  by (simp add: lower_def lower_char_idem)

lemma dropWhile_lower: "dropWhile isspace (lower s) = lower (dropWhile isspace s)"
  by (induction s) (simp_all add: lower_def isspace_lower_char)

lemma strip_lower: "strip (lower s) = lower (strip s)"
proof -
  have r: "rev (lower s) = lower (rev s)" for s by (simp add: lower_def rev_map)
  show ?thesis
    by (simp add: strip_def lstrip_def rstrip_def dropWhile_lower r [symmetric])
      (simp add: r dropWhile_lower)
qed

lemmas string_eval = lower_def lower_char_def strip_def lstrip_def rstrip_def isspace_def Let_def
  char_of_eq_iff

lemma rstrip_Cons:
  "rstrip (c # u) = (if rstrip u = [] \<and> isspace c then [] else c # rstrip u)"
  by (auto simp: rstrip_def dropWhile_append)

lemma rstrip_idem: "rstrip (rstrip s) = rstrip s"
  by (simp add: rstrip_def)

lemma lstrip_rstrip: "lstrip (rstrip s) = rstrip (lstrip s)"
proof (induction s)
  case Nil
  then show ?case by (simp add: lstrip_def rstrip_def)
next
  case (Cons c u)
  show ?case
  proof (cases "isspace c")
    case True
    have "lstrip (rstrip (c # u)) = lstrip (rstrip u)"
      using True by (simp add: rstrip_Cons) (simp add: lstrip_def)
    moreover have "rstrip (lstrip (c # u)) = rstrip (lstrip u)"
      using True by (simp add: lstrip_def)
    ultimately show ?thesis using Cons by simp
  next
    case False
    then show ?thesis by (simp add: rstrip_Cons) (simp add: lstrip_def rstrip_Cons)
  qed
qed

lemma strip_idem: "strip (strip s) = strip s"
proof -
  have "strip (strip s) = rstrip (rstrip (lstrip (lstrip s)))"
    by (simp add: strip_def lstrip_rstrip)
  also have "\<dots> = strip s" by (simp add: strip_def rstrip_idem) (simp add: lstrip_def)
  finally show ?thesis .
qed

text \<open>The key of chat.py for the text \<^verbatim>\<open>Python\<close> and the age 10, and for the text
  \<^verbatim>\<open> python \<close> and the same age, computed.\<close>

lemmas key_eval = lesson_cache_key_def encode_def format_age_def str_int_def digits.simps
  digit_char_def md5_eval

lemma key_python_10: "lesson_cache_key ''Python'' (Some 10) = ''9947ad5e9c162ce1''"
  by (simp add: key_eval)

lemma key_python_10_spaced: "lesson_cache_key '' python '' (Some 10) = ''3a5b5f4a09975db0''"
  by (simp add: key_eval)

text \<open>
  Claim C7 as stated fails on the key of chat.py, which hashes the text as it is given:
  the texts \<^verbatim>\<open>Python\<close> and \<^verbatim>\<open> python \<close> with the age 10 get different keys.
\<close>

theorem lesson_cache_key_not_normalized:
  "lesson_cache_key ''Python'' (Some 10) = ''9947ad5e9c162ce1'' \<and>
   lesson_cache_key '' python '' (Some 10) = ''3a5b5f4a09975db0'' \<and>
   lesson_cache_key ''Python'' (Some 10) \<noteq> lesson_cache_key '' python '' (Some 10)"
  by (simp add: key_python_10 key_python_10_spaced)

text \<open>
  Claim C7, amended. \<^verbatim>\<open>get_cache_key\<close> of main.py lower-cases and trims its topic
  before hashing: \<^verbatim>\<open>Python\<close> and \<^verbatim>\<open> python \<close> get the same key, and for every
  topic the key of the lower-cased topic and the key of the trimmed topic are the key of
  the topic. The key is a function of the topic alone: neither an age nor a mode enters
  it, and equal topics give equal keys.
\<close>

theorem get_cache_key_normalizes:
  "get_cache_key ''Python'' = get_cache_key '' python '' \<and>
   get_cache_key (lower topic) = get_cache_key topic \<and>
   get_cache_key (strip topic) = get_cache_key topic"
proof -
  have "strip (lower ''Python'') = strip (lower '' python '')"
    by (simp add: string_eval)
  then have "get_cache_key ''Python'' = get_cache_key '' python ''"
    by (simp only: get_cache_key_def)
  moreover have "get_cache_key (lower topic) = get_cache_key topic"
    by (simp only: get_cache_key_def lower_idem)
  moreover have "strip (lower (strip topic)) = strip (lower topic)"
    by (simp add: strip_lower [symmetric] strip_idem)
  then have "get_cache_key (strip topic) = get_cache_key topic"
    by (simp only: get_cache_key_def)
  ultimately show ?thesis by blast
qed

end
